theory Spec2Isabelle
  imports Main "HOL-Library.Word"
begin

section \<open>fcache: an in-process key-value cache with per-entry expiration\<close>

text \<open>
  The embedding follows \<^verbatim>\<open>cache.go\<close>. Go's \<^verbatim>\<open>int64\<close> (and
  \<^verbatim>\<open>time.Duration\<close>, which is an \<^verbatim>\<open>int64\<close> count of nanoseconds) is a
  64-bit word: \<open>+\<close> wraps as Go's addition does, and the comparisons of the source are
  the signed ones, \<open><s\<close> and \<open>\<le>s\<close>. A reading of the clock,
  \<^verbatim>\<open>time.Now().UnixNano()\<close>, is an \<^verbatim>\<open>int64\<close> handed to the model as an argument.
\<close>

type_synonym int64 = "64 word"
type_synonym Duration = int64

definition NoExpiration :: Duration where
  "NoExpiration = - 1"

definition DefaultExpiration :: Duration where
  "DefaultExpiration = 0"

subsection \<open>Entries\<close>

text \<open>
  A stored value is a Go \<^verbatim>\<open>interface{}\<close>: \<open>None\<close> is \<^verbatim>\<open>nil\<close>, \<open>Some x\<close> a value
  \<open>x\<close> of the type parameter.
\<close>

record 'v Item =
  Object :: "'v option"
  Expiration :: int64

text \<open>
  Modelled from the spec: the declaration of \<^verbatim>\<open>Item\<close> and its method
  \<^verbatim>\<open>Expired\<close> are not among the source files. The spec gives an entry the two fields
  above and says: an entry with \<^verbatim>\<open>Expiration > 0\<close> is expired when the current time
  strictly exceeds \<^verbatim>\<open>Expiration\<close>; an entry with \<^verbatim>\<open>Expiration <= 0\<close> is never
  expired. The current time is the argument \<open>now\<close>.
\<close>

definition Expired :: "int64 \<Rightarrow> 'v Item \<Rightarrow> bool" where
  "Expired now item \<longleftrightarrow> 0 <s Expiration item \<and> Expiration item <s now"

subsection \<open>The cache, its mutex and its stop channel\<close>

text \<open>
  The fields of \<^verbatim>\<open>Cache\<close>. The map \<^verbatim>\<open>items\<close> is a partial function. The
  model follows one goroutine at a time, so \<^verbatim>\<open>mu\<close> is the state of the mutex (held or
  free), and the unbuffered channel \<^verbatim>\<open>stopGc\<close> is known by whether the goroutine
  running \<^verbatim>\<open>gcLoop\<close>, its only receiver, is still receiving from it.
\<close>

record 'v Cache =
  defaultExpiration :: Duration
  items :: "string \<rightharpoonup> 'v Item"
  mu :: bool
  gcInterval :: Duration
  stopGc :: bool

text \<open>
  What a call does: it returns, or it blocks for ever (a \<^verbatim>\<open>Lock\<close> of a mutex that
  is held, a send with no receiver), or the runtime aborts the program (an
  \<^verbatim>\<open>Unlock\<close> of a mutex that is not held).
\<close>

datatype 'a outcome = Return 'a | Blocks | Fatal

fun and_then :: "'a outcome \<Rightarrow> ('a \<Rightarrow> 'b outcome) \<Rightarrow> 'b outcome" where
  "and_then (Return x) f = f x"
| "and_then Blocks f = Blocks"
| "and_then Fatal f = Fatal"

definition Lock :: "'v Cache \<Rightarrow> 'v Cache outcome" where
  "Lock c = (if mu c then Blocks else Return (c\<lparr>mu := True\<rparr>))"

definition Unlock :: "'v Cache \<Rightarrow> 'v Cache outcome" where
  "Unlock c = (if mu c then Return (c\<lparr>mu := False\<rparr>) else Fatal)"

text \<open>
  The errors. The source builds the first three with \<^verbatim>\<open>fmt.Errorf\<close>:
  \<^verbatim>\<open>"Item % s already exists"\<close> in \<^verbatim>\<open>Add\<close>, \<^verbatim>\<open>"Item %s doesn't exist"\<close> in
  \<^verbatim>\<open>Update\<close> and \<^verbatim>\<open>Inc\<close> (both with the key), and
  \<^verbatim>\<open>"Error registering item types with Gob library"\<close> in \<^verbatim>\<open>Save\<close>. The last
  stands for an error that the encoder or the decoder returns.
\<close>

datatype error =
    ItemAlreadyExists string
  | ItemDoesntExist string
  | GobRegisterError
  | CodecError string

subsection \<open>The helpers that run under the lock\<close>

definition delete :: "'v Cache \<Rightarrow> string \<Rightarrow> 'v Cache" where
  "delete c k = c\<lparr>items := (items c)(k := None)\<rparr>"

definition set_item :: "'v Cache \<Rightarrow> int64 \<Rightarrow> string \<Rightarrow> 'v option \<Rightarrow> Duration \<Rightarrow> 'v Cache" where
  "set_item c now k v d =
     (let d' = (if d = DefaultExpiration then defaultExpiration c else d);
          e = (if 0 <s d' then now + d' else 0)
      in c\<lparr>items := (items c)(k \<mapsto> \<lparr>Object = v, Expiration = e\<rparr>)\<rparr>)"

definition get :: "'v Cache \<Rightarrow> int64 \<Rightarrow> string \<Rightarrow> 'v option \<times> bool" where
  "get c now k =
     (case items c k of
        None \<Rightarrow> (None, False)
      | Some item \<Rightarrow> if Expired now item then (None, False) else (Object item, True))"

subsection \<open>The public operations\<close>

definition Set :: "'v Cache \<Rightarrow> int64 \<Rightarrow> string \<Rightarrow> 'v option \<Rightarrow> Duration \<Rightarrow> 'v Cache outcome" where
  "Set c now k v d = and_then (Lock c) (\<lambda>c1. Unlock (set_item c1 now k v d))"

definition Get :: "'v Cache \<Rightarrow> int64 \<Rightarrow> string \<Rightarrow> ('v Cache \<times> 'v option \<times> bool) outcome" where
  "Get c now k =
     and_then (Lock c) (\<lambda>c1.
       and_then (Unlock c1) (\<lambda>c2. Return (c2, get c1 now k)))"

definition Add ::
  "'v Cache \<Rightarrow> int64 \<Rightarrow> int64 \<Rightarrow> string \<Rightarrow> 'v option \<Rightarrow> Duration
     \<Rightarrow> ('v Cache \<times> error option) outcome" where
  "Add c tg ts k v d =
     and_then (Lock c) (\<lambda>c1.
       if snd (get c1 tg k)
       then and_then (Unlock c1) (\<lambda>c2. Return (c2, Some (ItemAlreadyExists k)))
       else and_then (Unlock (set_item c1 ts k v d)) (\<lambda>c2. Return (c2, None)))"

definition Update ::
  "'v Cache \<Rightarrow> int64 \<Rightarrow> int64 \<Rightarrow> string \<Rightarrow> 'v option \<Rightarrow> Duration
     \<Rightarrow> ('v Cache \<times> error option) outcome" where
  "Update c tg ts k v d =
     and_then (Lock c) (\<lambda>c1.
       if \<not> snd (get c1 tg k)
       then and_then (Lock c1) (\<lambda>c2. Return (c2, Some (ItemDoesntExist k)))
       else and_then (Unlock (set_item c1 ts k v d)) (\<lambda>c2. Return (c2, None)))"

definition Inc :: "'v Cache \<Rightarrow> int64 \<Rightarrow> string \<Rightarrow> int64 \<Rightarrow> ('v Cache \<times> error option) outcome" where
  "Inc c tg k n =
     and_then (Lock c) (\<lambda>c1.
       if \<not> snd (get c1 tg k)
       then and_then (Lock c1) (\<lambda>c2. Return (c2, Some (ItemDoesntExist k)))
       else and_then (Unlock c1) (\<lambda>c2. Return (c2, None)))"

definition Delete :: "'v Cache \<Rightarrow> string \<Rightarrow> 'v Cache outcome" where
  "Delete c k = and_then (Lock c) (\<lambda>c1. Unlock (delete c1 k))"


subsection \<open>Loops over a map\<close>

text \<open>
  Go's \<^verbatim>\<open>range\<close> over a map visits every key once, in an order the runtime chooses.
  A loop of the source takes that order as the list \<open>ks\<close>; \<open>range_order ks m\<close> says
  that \<open>ks\<close> is such an order for the map \<open>m\<close>. The loops below look the value of a
  key up when they reach it, and pass over a key that is not in the map.
\<close>

definition range_order :: "string list \<Rightarrow> (string \<rightharpoonup> 'a) \<Rightarrow> bool" where
  "range_order ks m \<longleftrightarrow> distinct ks \<and> set ks = dom m"

fun DeleteExpired_range :: "int64 \<Rightarrow> string list \<Rightarrow> 'v Cache \<Rightarrow> 'v Cache" where
  "DeleteExpired_range now [] c = c"
| "DeleteExpired_range now (k # ks) c =
     DeleteExpired_range now ks
       (case items c k of
          None \<Rightarrow> c
        | Some v \<Rightarrow> if 0 <s Expiration v \<and> Expiration v <s now then delete c k else c)"

definition DeleteExpired :: "'v Cache \<Rightarrow> int64 \<Rightarrow> string list \<Rightarrow> 'v Cache outcome" where
  "DeleteExpired c now ks =
     and_then (Lock c) (\<lambda>c1. Unlock (DeleteExpired_range now ks c1))"

subsection \<open>Snapshots\<close>



text \<open>
  In \<^verbatim>\<open>Load\<close>, \<open>clock k\<close> is the reading of the clock that \<^verbatim>\<open>item.Expired()\<close>
  makes when the loop is at the key \<open>k\<close>.
\<close>

fun Load_range ::
  "(string \<Rightarrow> int64) \<Rightarrow> (string \<rightharpoonup> 'v Item) \<Rightarrow> string list \<Rightarrow> 'v Cache \<Rightarrow> 'v Cache" where
  "Load_range clock m [] c = c"
| "Load_range clock m (k # ks) c =
     Load_range clock m ks
       (case m k of
          None \<Rightarrow> c
        | Some v \<Rightarrow>
            (case items c k of
               None \<Rightarrow> c\<lparr>items := (items c)(k \<mapsto> v)\<rparr>
             | Some item \<Rightarrow>
                 if Expired (clock k) item then c\<lparr>items := (items c)(k \<mapsto> v)\<rparr> else c))"

definition Load ::
  "'v Cache \<Rightarrow> ('b list \<Rightarrow> error + (string \<rightharpoonup> 'v Item)) \<Rightarrow> 'b list \<Rightarrow> (string \<Rightarrow> int64)
     \<Rightarrow> string list \<Rightarrow> ('v Cache \<times> error option) outcome" where
  "Load c dec r clock ks =
     (case dec r of
        Inl err \<Rightarrow> Return (c, Some err)
      | Inr m \<Rightarrow>
          and_then (Lock c) (\<lambda>c1.
            and_then (Unlock (Load_range clock m ks c1)) (\<lambda>c2. Return (c2, None))))"

subsection \<open>The sweeper\<close>

text \<open>
  What the \<^verbatim>\<open>select\<close> of \<^verbatim>\<open>gcLoop\<close> can receive: a tick (with the reading of the
  clock and the order of the range that \<^verbatim>\<open>DeleteExpired\<close> then sees), or the stop
  signal. \<^verbatim>\<open>time.NewTicker\<close> panics on an interval that is not positive. After the
  stop signal \<^verbatim>\<open>gcLoop\<close> returns, and nothing receives from \<^verbatim>\<open>stopGc\<close> any more.
\<close>

datatype gc_event = Tick int64 "string list" | StopSignal

fun gcLoop_for :: "'v Cache \<Rightarrow> gc_event list \<Rightarrow> 'v Cache outcome" where
  "gcLoop_for c [] = Return c"
| "gcLoop_for c (Tick now ks # es) =
     and_then (DeleteExpired c now ks) (\<lambda>c1. gcLoop_for c1 es)"
| "gcLoop_for c (StopSignal # es) = Return (c\<lparr>stopGc := False\<rparr>)"

definition gcLoop :: "'v Cache \<Rightarrow> gc_event list \<Rightarrow> 'v Cache outcome" where
  "gcLoop c es = (if gcInterval c \<le>s 0 then Fatal else gcLoop_for c es)"

text \<open>
  \<^verbatim>\<open>c.stopGc <- true\<close> on the unbuffered channel: the send completes when
  \<^verbatim>\<open>gcLoop\<close> receives it, and blocks for ever when \<^verbatim>\<open>gcLoop\<close> has returned.
\<close>

definition StopGc :: "'v Cache \<Rightarrow> 'v Cache outcome" where
  "StopGc c = (if stopGc c then gcLoop c [StopSignal] else Blocks)"

definition NewCache :: "Duration \<Rightarrow> Duration \<Rightarrow> 'v Cache" where
  "NewCache d g =
     \<lparr>defaultExpiration = d, items = Map.empty, mu = False, gcInterval = g, stopGc = True\<rparr>"

section \<open>Properties\<close>

subsection \<open>Calls that find the mutex free\<close>

lemma Set_unlocked:
  "\<not> mu c \<Longrightarrow> Set c now k v d = Return (set_item c now k v d)"
  by (simp add: Set_def Lock_def Unlock_def set_item_def Let_def)

lemma Get_unlocked:
  "\<not> mu c \<Longrightarrow> Get c now k = Return (c, get c now k)"
  by (simp add: Get_def Lock_def Unlock_def get_def)

lemma get_mu_irrelevant [simp]:
  "get (c\<lparr>mu := b\<rparr>) now k = get c now k"
  by (simp add: get_def)

lemma Add_unlocked:
  "\<not> mu c \<Longrightarrow>
   Add c tg ts k v d =
     (if snd (get c tg k) then Return (c, Some (ItemAlreadyExists k))
      else Return (set_item c ts k v d, None))"
  by (simp add: Add_def Lock_def Unlock_def set_item_def Let_def)

lemma Update_unlocked:
  "\<not> mu c \<Longrightarrow>
   Update c tg ts k v d =
     (if snd (get c tg k) then Return (set_item c ts k v d, None) else Blocks)"
  by (simp add: Update_def Lock_def Unlock_def set_item_def Let_def)

lemma Inc_unlocked:
  "\<not> mu c \<Longrightarrow>
   Inc c tg k n = (if snd (get c tg k) then Return (c, None) else Blocks)"
  by (simp add: Inc_def Lock_def Unlock_def)


subsection \<open>Reading: \<^verbatim>\<open>Get\<close>\<close>

lemma get_found_iff:
  "\<not> snd (get c now k) \<longleftrightarrow>
     items c k = None \<or>
     (\<exists>item. items c k = Some item \<and> 0 <s Expiration item \<and> Expiration item <s now)"
  by (auto simp: get_def Expired_def split: option.splits)

lemma Expired_nonpositive: "Expiration item \<le>s 0 \<Longrightarrow> \<not> Expired now item"
  by (auto simp: Expired_def)

lemma get_set_item_same:
  "0 <s d \<Longrightarrow>
   get (set_item c t0 k v d) t k =
     (if 0 <s t0 + d \<and> t0 + d <s t then (None, False) else (v, True))"
  by (auto simp: get_def set_item_def Expired_def DefaultExpiration_def Let_def)

lemma mu_set_item [simp]: "mu (set_item c now k v d) = mu c"
  by (simp add: set_item_def Let_def)

lemma sint_sum_int64:
  fixes t0 d :: int64
  assumes "0 <s d" and "0 \<le>s t0"
  shows "(0 <s t0 + d \<and> t0 + d <s t) \<longleftrightarrow> sint t0 + sint d < sint t"
proof -
  let ?S = "sint t0 + sint d"
  from assms have pos: "0 < sint d" "0 \<le> sint t0"
    by (simp_all add: word_sless_alt word_sle_eq)
  have sum: "sint (t0 + d) = signed_take_bit 63 ?S"
    by (simp add: sint_word_ariths)
  have top: "sint t < 2 ^ 63"
    using sint_lt [of t] by simp
  show ?thesis
  proof (cases "?S < 2 ^ 63")
    case True
    with pos have "signed_take_bit 63 ?S = ?S"
      by (intro signed_take_bit_int_eq_self) simp_all
    with sum pos show ?thesis
      by (simp add: word_sless_alt)
  next
    case False
    then have "signed_take_bit 63 ?S \<le> ?S - 2 ^ Suc 63"
      by (intro signed_take_bit_int_less_eq) simp
    moreover have "?S < 2 ^ 64"
      using sint_lt [of t0] sint_lt [of d] by simp
    moreover have "(2::int) ^ Suc 63 = 2 ^ 64"
      by simp
    ultimately have "sint (t0 + d) < 0"
      unfolding sum by linarith
    with False top show ?thesis
      by (simp add: word_sless_alt)
  qed
qed

lemma Set_then_Get:
  assumes "\<not> mu c" and "0 <s d"
  shows "and_then (Set c t0 k v d) (\<lambda>c1. Get c1 t k) =
           Return (set_item c t0 k v d,
             if 0 <s t0 + d \<and> t0 + d <s t then (None, False) else (v, True))"
  using assms by (simp add: Set_unlocked Get_unlocked get_set_item_same)

text \<open>
  C1. A call of \<^verbatim>\<open>Get\<close> that finds the mutex free returns what \<^verbatim>\<open>get\<close>
  computes and leaves the cache as it was; \<open>found\<close> is false exactly when the key is
  absent or its entry is expired (\<^verbatim>\<open>Expiration > 0\<close> and the clock strictly past it);
  an entry with \<^verbatim>\<open>Expiration <= 0\<close> is never expired. For a key set with a duration
  \<open>d > 0\<close> at the clock reading \<open>t0\<close> (a reading of the Unix clock, so not negative),
  \<^verbatim>\<open>Get\<close> at the reading \<open>t\<close> finds the key, with its value, exactly while \<open>t\<close> is
  not strictly after \<open>t0 + d\<close>, and reports it absent thereafter, with no sweep in
  between. The sum \<open>t0 + d\<close> is that of the integers: the sentence also holds when the
  \<^verbatim>\<open>int64\<close> sum of the source wraps, where no reading of the clock is after
  \<open>t0 + d\<close>.
\<close>

theorem Get_found_unless_absent_or_expired:
  assumes "\<not> mu c"
  shows "Get c now k = Return (c, get c now k) \<and>
         (\<not> snd (get c now k) \<longleftrightarrow>
            items c k = None \<or>
            (\<exists>item. items c k = Some item \<and> 0 <s Expiration item \<and> Expiration item <s now)) \<and>
         (\<forall>item::'v Item. Expiration item \<le>s 0 \<longrightarrow> \<not> Expired now item) \<and>
         (0 <s d \<and> 0 \<le>s t0 \<longrightarrow>
            and_then (Set c t0 k v d) (\<lambda>c1. Get c1 t k) =
              Return (set_item c t0 k v d,
                if sint t \<le> sint t0 + sint d then (v, True) else (None, False)))"
proof (intro conjI impI allI)
  show "Get c now k = Return (c, get c now k)"
    using assms by (rule Get_unlocked)
  show "\<not> snd (get c now k) \<longleftrightarrow>
          items c k = None \<or>
          (\<exists>item. items c k = Some item \<and> 0 <s Expiration item \<and> Expiration item <s now)"
    by (rule get_found_iff)
  show "\<not> Expired now item" if "Expiration item \<le>s 0" for item :: "'v Item"
    using that by (rule Expired_nonpositive)
  show "and_then (Set c t0 k v d) (\<lambda>c1. Get c1 t k) =
          Return (set_item c t0 k v d,
            if sint t \<le> sint t0 + sint d then (v, True) else (None, False))"
    if "0 <s d \<and> 0 \<le>s t0"
  proof -
    from that have "(0 <s t0 + d \<and> t0 + d <s t) \<longleftrightarrow> \<not> sint t \<le> sint t0 + sint d"
      by (simp add: sint_sum_int64 not_le)
    with that assms show ?thesis
      by (simp add: Set_then_Get)
  qed
qed

theorem Get_found_unless_absent_or_expired_witness:
  "Get (NewCache 0 50000000 :: nat Cache) 7 ''x'' =
     Return (NewCache 0 50000000, None, False) \<and>
   and_then (Set (NewCache 0 50000000) 100 ''x'' (Some (1::nat)) 20) (\<lambda>c1. Get c1 120 ''x'') =
     Return (set_item (NewCache 0 50000000) 100 ''x'' (Some 1) 20, Some 1, True) \<and>
   and_then (Set (NewCache 0 50000000) 100 ''x'' (Some (1::nat)) 20) (\<lambda>c1. Get c1 121 ''x'') =
     Return (set_item (NewCache 0 50000000) 100 ''x'' (Some 1) 20, None, False) \<and>
   and_then (Set (NewCache 0 50000000) 100 ''x'' (Some (1::nat)) 9223372036854775807)
       (\<lambda>c1. Get c1 9223372036854775807 ''x'') =
     Return (set_item (NewCache 0 50000000) 100 ''x'' (Some 1) 9223372036854775807,
       Some 1, True)"
proof -
  have free: "\<not> mu (NewCache 0 50000000 :: nat Cache)"
    by (simp add: NewCache_def)
  have absent: "get (NewCache 0 50000000 :: nat Cache) 7 ''x'' = (None, False)"
    by (simp add: NewCache_def get_def)
  have pos: "0 <s (20::int64) \<and> 0 \<le>s (100::int64)"
    by (simp add: word_sless_alt word_sle_eq)
  have before: "sint (120::int64) \<le> sint (100::int64) + sint (20::int64)"
    and after: "\<not> sint (121::int64) \<le> sint (100::int64) + sint (20::int64)"
    by simp_all
  have pos': "0 <s (9223372036854775807::int64) \<and> 0 \<le>s (100::int64)"
    by (simp add: word_sless_alt word_sle_eq)
  have wrapped: "sint (9223372036854775807::int64) \<le>
      sint (100::int64) + sint (9223372036854775807::int64)"
    by simp
  note at = Get_found_unless_absent_or_expired [OF free, where now = 7 and k = "''x''"
      and v = "Some 1" and ?t0.0 = 100]
  have "Get (NewCache 0 50000000 :: nat Cache) 7 ''x'' = Return (NewCache 0 50000000, None, False)"
    using at [where d = 20 and t = 120, THEN conjunct1] absent by simp
  moreover have "and_then (Set (NewCache 0 50000000) 100 ''x'' (Some (1::nat)) 20)
        (\<lambda>c1. Get c1 120 ''x'') =
      Return (set_item (NewCache 0 50000000) 100 ''x'' (Some 1) 20, Some 1, True)"
    using at [where d = 20 and t = 120,
        THEN conjunct2, THEN conjunct2, THEN conjunct2, THEN mp, OF pos]
      before by simp
  moreover have "and_then (Set (NewCache 0 50000000) 100 ''x'' (Some (1::nat)) 20)
        (\<lambda>c1. Get c1 121 ''x'') =
      Return (set_item (NewCache 0 50000000) 100 ''x'' (Some 1) 20, None, False)"
    using at [where d = 20 and t = 121,
        THEN conjunct2, THEN conjunct2, THEN conjunct2, THEN mp, OF pos]
      after by simp
  moreover have "and_then (Set (NewCache 0 50000000) 100 ''x'' (Some (1::nat)) 9223372036854775807)
        (\<lambda>c1. Get c1 9223372036854775807 ''x'') =
      Return (set_item (NewCache 0 50000000) 100 ''x'' (Some 1) 9223372036854775807,
        Some 1, True)"
    using at [where d = 9223372036854775807 and t = 9223372036854775807,
        THEN conjunct2, THEN conjunct2, THEN conjunct2, THEN mp, OF pos']
      wrapped by simp
  ultimately show ?thesis by blast
qed

subsection \<open>Writing: \<^verbatim>\<open>Set\<close>, \<^verbatim>\<open>Add\<close>, \<^verbatim>\<open>Update\<close>\<close>

text \<open>
  C2. A call of \<^verbatim>\<open>Set\<close> that finds the mutex free returns (it has no error result),
  and the cache it leaves differs from the one it found only at the key \<open>k\<close>, whatever
  was stored there: the entry under \<open>k\<close> holds the value \<open>v\<close> and the expiration
  \<open>now + r\<close> when \<open>r > 0\<close> and \<open>0\<close> otherwise, where the resolved duration \<open>r\<close> is
  the cache's default when \<open>d\<close> is \<^verbatim>\<open>DefaultExpiration\<close> and \<open>d\<close> otherwise. So the
  expiration is \<open>0\<close> for \<^verbatim>\<open>NoExpiration\<close> and for a default that is not positive. The
  sum is Go's \<^verbatim>\<open>int64\<close> sum.
\<close>

theorem Set_inserts_or_overwrites:
  assumes "\<not> mu c"
  shows "\<exists>r e. r = (if d = DefaultExpiration then defaultExpiration c else d) \<and>
           e = (if 0 <s r then now + r else 0) \<and>
           Set c now k v d =
             Return (c\<lparr>items := (items c)(k \<mapsto> \<lparr>Object = v, Expiration = e\<rparr>)\<rparr>) \<and>
           (d = NoExpiration \<longrightarrow> e = 0) \<and>
           (d = DefaultExpiration \<and> defaultExpiration c \<le>s 0 \<longrightarrow> e = 0)"
  using assms
  by (auto simp: Set_unlocked set_item_def Let_def NoExpiration_def DefaultExpiration_def
        word_sless_alt word_sle_eq)

theorem Set_inserts_or_overwrites_witness:
  "Set \<lparr>defaultExpiration = 30, items = [''x'' \<mapsto> \<lparr>Object = Some (1::nat), Expiration = 0\<rparr>],
        mu = False, gcInterval = 50000000, stopGc = True\<rparr> 100 ''x'' (Some 2) 0 =
     Return \<lparr>defaultExpiration = 30,
             items = [''x'' \<mapsto> \<lparr>Object = Some 2, Expiration = 130\<rparr>],
             mu = False, gcInterval = 50000000, stopGc = True\<rparr> \<and>
   Set \<lparr>defaultExpiration = 30, items = [''x'' \<mapsto> \<lparr>Object = Some (1::nat), Expiration = 7\<rparr>],
        mu = False, gcInterval = 50000000, stopGc = True\<rparr> 100 ''x'' (Some 2) (- 1) =
     Return \<lparr>defaultExpiration = 30,
             items = [''x'' \<mapsto> \<lparr>Object = Some 2, Expiration = 0\<rparr>],
             mu = False, gcInterval = 50000000, stopGc = True\<rparr> \<and>
   Set \<lparr>defaultExpiration = - 1, items = (Map.empty :: string \<rightharpoonup> nat Item),
        mu = False, gcInterval = 50000000, stopGc = True\<rparr> 100 ''x'' (Some 2) 0 =
     Return \<lparr>defaultExpiration = - 1,
             items = [''x'' \<mapsto> \<lparr>Object = Some 2, Expiration = 0\<rparr>],
             mu = False, gcInterval = 50000000, stopGc = True\<rparr>"
proof -
  let ?c = "\<lparr>defaultExpiration = 30,
              items = [''x'' \<mapsto> \<lparr>Object = Some (1::nat), Expiration = 0\<rparr>],
              mu = False, gcInterval = 50000000, stopGc = True\<rparr>"
  let ?d = "\<lparr>defaultExpiration = 30,
              items = [''x'' \<mapsto> \<lparr>Object = Some (1::nat), Expiration = 7\<rparr>],
              mu = False, gcInterval = 50000000, stopGc = True\<rparr>"
  let ?e = "\<lparr>defaultExpiration = - 1, items = (Map.empty :: string \<rightharpoonup> nat Item),
              mu = False, gcInterval = 50000000, stopGc = True\<rparr>"
  have "Set ?c 100 ''x'' (Some 2) 0 =
      Return (?c\<lparr>items := (items ?c)(''x'' \<mapsto> \<lparr>Object = Some 2, Expiration = 130\<rparr>)\<rparr>)"
    using Set_inserts_or_overwrites
      [where c = ?c and now = 100 and k = "''x''" and v = "Some 2" and d = 0]
    by (simp add: DefaultExpiration_def word_sless_alt)
  moreover have "Set ?d 100 ''x'' (Some 2) (- 1) =
      Return (?d\<lparr>items := (items ?d)(''x'' \<mapsto> \<lparr>Object = Some 2, Expiration = 0\<rparr>)\<rparr>)"
    using Set_inserts_or_overwrites
      [where c = ?d and now = 100 and k = "''x''" and v = "Some 2" and d = "- 1"]
    by (auto simp: NoExpiration_def)
  moreover have "Set ?e 100 ''x'' (Some 2) 0 =
      Return (?e\<lparr>items := (items ?e)(''x'' \<mapsto> \<lparr>Object = Some 2, Expiration = 0\<rparr>)\<rparr>)"
    using Set_inserts_or_overwrites
      [where c = ?e and now = 100 and k = "''x''" and v = "Some 2" and d = 0]
    by (auto simp: DefaultExpiration_def word_sle_eq)
  ultimately show ?thesis
    by simp
qed

text \<open>
  C3. Called with the mutex free, \<^verbatim>\<open>Add\<close> returns an error exactly when a live entry
  (present, and not expired at the clock reading \<open>tg\<close> of its check) is stored under the
  key; the error is the "already exists" one and the cache is returned as it was. When the
  key is absent or its entry is expired, \<^verbatim>\<open>Add\<close> returns no error and leaves the cache
  that \<^verbatim>\<open>Set\<close> leaves (at the clock reading \<open>ts\<close> of the write).
\<close>

theorem Add_fails_iff_live_entry:
  assumes "\<not> mu c"
  shows "((\<exists>c' err. Add c tg ts k v d = Return (c', Some err)) \<longleftrightarrow>
            (\<exists>item. items c k = Some item \<and> \<not> Expired tg item)) \<and>
         ((\<exists>item. items c k = Some item \<and> \<not> Expired tg item) \<longrightarrow>
            Add c tg ts k v d = Return (c, Some (ItemAlreadyExists k))) \<and>
         (items c k = None \<or> (\<exists>item. items c k = Some item \<and> Expired tg item) \<longrightarrow>
            Add c tg ts k v d = and_then (Set c ts k v d) (\<lambda>c'. Return (c', None)) \<and>
            Add c tg ts k v d = Return (set_item c ts k v d, None))"
  using assms
  by (auto simp: Add_unlocked Set_unlocked get_def split: option.splits)

theorem Add_fails_iff_live_entry_witness:
  "Add \<lparr>defaultExpiration = 0, items = [''x'' \<mapsto> \<lparr>Object = Some (1::nat), Expiration = 50\<rparr>],
        mu = False, gcInterval = 50000000, stopGc = True\<rparr> 50 50 ''x'' (Some 2) 0 =
     Return (\<lparr>defaultExpiration = 0,
              items = [''x'' \<mapsto> \<lparr>Object = Some 1, Expiration = 50\<rparr>],
              mu = False, gcInterval = 50000000, stopGc = True\<rparr>,
             Some (ItemAlreadyExists ''x'')) \<and>
   Add \<lparr>defaultExpiration = 0, items = [''x'' \<mapsto> \<lparr>Object = Some (1::nat), Expiration = 50\<rparr>],
        mu = False, gcInterval = 50000000, stopGc = True\<rparr> 51 51 ''x'' (Some 2) 0 =
     Return (\<lparr>defaultExpiration = 0,
              items = [''x'' \<mapsto> \<lparr>Object = Some 2, Expiration = 0\<rparr>],
              mu = False, gcInterval = 50000000, stopGc = True\<rparr>, None)"
proof -
  let ?c = "\<lparr>defaultExpiration = 0,
              items = [''x'' \<mapsto> \<lparr>Object = Some (1::nat), Expiration = 50\<rparr>],
              mu = False, gcInterval = 50000000, stopGc = True\<rparr>"
  have free: "\<not> mu ?c"
    by simp
  have live: "\<exists>item. items ?c ''x'' = Some item \<and> \<not> Expired 50 item"
    by (simp add: Expired_def word_sless_alt)
  have dead: "items ?c ''x'' = None \<or> (\<exists>item. items ?c ''x'' = Some item \<and> Expired 51 item)"
    by (simp add: Expired_def word_sless_alt)
  note at = Add_fails_iff_live_entry [OF free, where k = "''x''" and v = "Some 2" and d = 0]
  have "Add ?c 50 50 ''x'' (Some 2) 0 = Return (?c, Some (ItemAlreadyExists ''x''))"
    using at [where tg = 50 and ts = 50, THEN conjunct2, THEN conjunct1, THEN mp, OF live] .
  moreover have "Add ?c 51 51 ''x'' (Some 2) 0 = Return (set_item ?c 51 ''x'' (Some 2) 0, None)"
    using at [where tg = 51 and ts = 51, THEN conjunct2, THEN conjunct2, THEN mp, OF dead,
        THEN conjunct2] .
  ultimately show ?thesis
    by (simp add: set_item_def DefaultExpiration_def Let_def)
qed

text \<open>
  C4. \<^verbatim>\<open>Update\<close> of a key that is absent from a new cache: the check fails, and the
  error path calls \<^verbatim>\<open>c.mu.Lock()\<close> on the mutex the call already holds, so the
  call never returns its error.
\<close>

theorem Update_absent_key_never_returns:
  "Update (NewCache 0 50000000 :: nat Cache) 100 100 ''x'' (Some 1) 0 = Blocks"
  by (simp add: Update_def Lock_def NewCache_def get_def)

text \<open>
  C5, as amended. Each of \<^verbatim>\<open>Add\<close>, \<^verbatim>\<open>Update\<close> and \<^verbatim>\<open>Inc\<close> takes the
  mutex and then calls \<^verbatim>\<open>get\<close>. On their error path (no live entry under the key)
  \<^verbatim>\<open>Update\<close> and \<^verbatim>\<open>Inc\<close> call \<^verbatim>\<open>Lock\<close> a second time instead of
  \<^verbatim>\<open>Unlock\<close>, and so never return. On its error path (a live entry under the key)
  \<^verbatim>\<open>Add\<close> calls \<^verbatim>\<open>Unlock\<close>, and returns its error with the mutex free.
\<close>

theorem Update_Inc_lock_twice_Add_unlocks:
  "(\<not> snd (get c tg k) \<longrightarrow>
      Update c tg ts k v d =
        and_then (Lock c) (\<lambda>c1.
          and_then (Lock c1) (\<lambda>c2. Return (c2, Some (ItemDoesntExist k)))) \<and>
      Inc c tg k n =
        and_then (Lock c) (\<lambda>c1.
          and_then (Lock c1) (\<lambda>c2. Return (c2, Some (ItemDoesntExist k)))) \<and>
      (\<not> mu c \<longrightarrow> Update c tg ts k v d = Blocks \<and> Inc c tg k n = Blocks)) \<and>
   (snd (get c tg k) \<longrightarrow>
      Add c tg ts k v d =
        and_then (Lock c) (\<lambda>c1.
          and_then (Unlock c1) (\<lambda>c2. Return (c2, Some (ItemAlreadyExists k)))) \<and>
      (\<not> mu c \<longrightarrow> Add c tg ts k v d = Return (c, Some (ItemAlreadyExists k))))"
  by (auto simp: Update_def Inc_def Add_def Lock_def Unlock_def)

theorem Update_Inc_lock_twice_Add_unlocks_witness:
  "Update (NewCache 0 50000000 :: nat Cache) 100 100 ''x'' (Some 1) 0 = Blocks \<and>
   Inc (NewCache 0 50000000 :: nat Cache) 100 ''x'' 1 = Blocks \<and>
   Add \<lparr>defaultExpiration = 0, items = [''x'' \<mapsto> \<lparr>Object = Some (1::nat), Expiration = 0\<rparr>],
        mu = False, gcInterval = 50000000, stopGc = True\<rparr> 100 100 ''x'' (Some 2) 0 =
     Return (\<lparr>defaultExpiration = 0,
              items = [''x'' \<mapsto> \<lparr>Object = Some 1, Expiration = 0\<rparr>],
              mu = False, gcInterval = 50000000, stopGc = True\<rparr>,
             Some (ItemAlreadyExists ''x''))"
proof -
  let ?c = "\<lparr>defaultExpiration = 0,
              items = [''x'' \<mapsto> \<lparr>Object = Some (1::nat), Expiration = 0\<rparr>],
              mu = False, gcInterval = 50000000, stopGc = True\<rparr>"
  have absent: "\<not> snd (get (NewCache 0 50000000 :: nat Cache) 100 ''x'')"
    by (simp add: get_def NewCache_def)
  have free: "\<not> mu (NewCache 0 50000000 :: nat Cache)"
    by (simp add: NewCache_def)
  have live: "snd (get ?c 100 ''x'')"
    by (simp add: get_def Expired_def word_sless_alt)
  have free': "\<not> mu ?c"
    by simp
  note blocked = Update_Inc_lock_twice_Add_unlocks
    [where c = "NewCache 0 50000000 :: nat Cache" and tg = 100 and k = "''x''"
       and ts = 100 and v = "Some 1" and d = 0 and n = 1,
      THEN conjunct1, THEN mp, OF absent, THEN conjunct2, THEN conjunct2, THEN mp, OF free]
  note returned = Update_Inc_lock_twice_Add_unlocks
    [where c = ?c and tg = 100 and k = "''x''" and ts = 100 and v = "Some 2" and d = 0,
      THEN conjunct2, THEN mp, OF live, THEN conjunct2, THEN mp, OF free']
  from blocked returned
  show ?thesis by blast
qed

text \<open>
  The claim as first stated includes \<^verbatim>\<open>Add\<close>: but \<^verbatim>\<open>Add\<close> of a key with a live
  entry returns its error, and the mutex is free again.
\<close>

theorem Add_error_path_counterexample:
  "Add \<lparr>defaultExpiration = 0, items = [''x'' \<mapsto> \<lparr>Object = Some (1::nat), Expiration = 0\<rparr>],
        mu = False, gcInterval = 50000000, stopGc = True\<rparr> 100 100 ''x'' (Some 2) 0 =
     Return (\<lparr>defaultExpiration = 0,
              items = [''x'' \<mapsto> \<lparr>Object = Some 1, Expiration = 0\<rparr>],
              mu = False, gcInterval = 50000000, stopGc = True\<rparr>,
             Some (ItemAlreadyExists ''x''))"
  by (simp add: Add_unlocked get_def Expired_def word_sless_alt)

subsection \<open>Stopping the sweeper\<close>

lemma StopGc_cases:
  "StopGc c =
     (if stopGc c then (if gcInterval c \<le>s 0 then Fatal else Return (c\<lparr>stopGc := False\<rparr>))
      else Blocks)"
  by (simp add: StopGc_def gcLoop_def)

text \<open>
  C9, as amended. On a cache whose sweeper runs (its interval is positive),
  \<^verbatim>\<open>StopGc\<close> returns while the sweeper is still receiving from the channel, and the
  sweeper then returns; once the sweeper has returned, \<^verbatim>\<open>StopGc\<close> blocks for ever.
  So a second \<^verbatim>\<open>StopGc\<close> never returns.
\<close>

theorem StopGc_returns_once:
  assumes "0 <s gcInterval c"
  shows "(stopGc c \<longrightarrow> StopGc c = Return (c\<lparr>stopGc := False\<rparr>)) \<and>
         (\<not> stopGc c \<longrightarrow> StopGc c = Blocks) \<and>
         and_then (StopGc (c\<lparr>stopGc := True\<rparr>)) StopGc = Blocks"
  using assms by (auto simp: StopGc_cases word_sless_alt word_sle_eq)

theorem StopGc_returns_once_witness:
  "StopGc (NewCache 5 1000 :: nat Cache) =
     Return \<lparr>defaultExpiration = 5, items = Map.empty, mu = False,
             gcInterval = 1000, stopGc = False\<rparr> \<and>
   StopGc \<lparr>defaultExpiration = 5, items = (Map.empty :: string \<rightharpoonup> nat Item), mu = False,
           gcInterval = 1000, stopGc = False\<rparr> = Blocks"
proof -
  let ?c = "\<lparr>defaultExpiration = 5, items = (Map.empty :: string \<rightharpoonup> nat Item), mu = False,
              gcInterval = 1000, stopGc = False\<rparr>"
  have pos: "0 <s gcInterval (NewCache 5 1000 :: nat Cache)" and pos': "0 <s gcInterval ?c"
    by (simp_all add: NewCache_def word_sless_alt)
  have listening: "stopGc (NewCache 5 1000 :: nat Cache)" and returned: "\<not> stopGc ?c"
    by (simp_all add: NewCache_def)
  from StopGc_returns_once [OF pos, THEN conjunct1, THEN mp, OF listening]
    StopGc_returns_once [OF pos', THEN conjunct2, THEN conjunct1, THEN mp, OF returned]
  show ?thesis by (simp add: NewCache_def)
qed

text \<open>
  The claim as first stated fails on a second call: the first \<^verbatim>\<open>StopGc\<close> on a new
  cache returns, the second, sent after the sweeper has returned, blocks for ever.
\<close>

theorem StopGc_twice_counterexample:
  "StopGc (NewCache 0 50000000 :: nat Cache) =
     Return \<lparr>defaultExpiration = 0, items = Map.empty, mu = False,
             gcInterval = 50000000, stopGc = False\<rparr> \<and>
   StopGc \<lparr>defaultExpiration = 0, items = (Map.empty :: string \<rightharpoonup> nat Item), mu = False,
           gcInterval = 50000000, stopGc = False\<rparr> = Blocks"
  by (simp add: StopGc_cases NewCache_def word_sle_eq)

subsection \<open>Loading a snapshot\<close>

text \<open>
  C10. When decoding the stream fails, \<^verbatim>\<open>Load\<close> returns the decoder's error and the
  cache as it was: the decoder fills a map of its own, and the error path returns before
  the mutex is taken and before the loop that merges.
\<close>

theorem Load_decode_error_leaves_cache:
  assumes "dec r = Inl err"
  shows "Load c dec r clock ks = Return (c, Some err)"
  using assms by (simp add: Load_def)

theorem Load_decode_error_leaves_cache_witness:
  "Load \<lparr>defaultExpiration = 0, items = [''x'' \<mapsto> \<lparr>Object = Some (1::nat), Expiration = 0\<rparr>],
         mu = False, gcInterval = 50000000, stopGc = True\<rparr>
      (\<lambda>r. if r = [] then Inl (CodecError ''EOF'') else Inr Map.empty) ([] :: nat list)
      (\<lambda>k. 100) [] =
     Return (\<lparr>defaultExpiration = 0,
              items = [''x'' \<mapsto> \<lparr>Object = Some 1, Expiration = 0\<rparr>],
              mu = False, gcInterval = 50000000, stopGc = True\<rparr>, Some (CodecError ''EOF''))"
  using Load_decode_error_leaves_cache
    [where dec = "\<lambda>r. if r = [] then Inl (CodecError ''EOF'') else Inr Map.empty"
       and r = "[] :: nat list" and err = "CodecError ''EOF''"]
  by simp

subsection \<open>The sweep: \<^verbatim>\<open>DeleteExpired\<close>\<close>

lemma DeleteExpired_range_frame:
  "DeleteExpired_range now ks c = c\<lparr>items := items (DeleteExpired_range now ks c)\<rparr>"
proof (induction ks arbitrary: c)
  case Nil
  show ?case by simp
next
  case (Cons k ks)
  show ?case
    by (subst (1 2) DeleteExpired_range.simps, subst (1 2) Cons.IH)
      (simp add: delete_def split: option.splits)
qed

lemma DeleteExpired_range_items:
  "items (DeleteExpired_range now ks c) k =
     (case items c k of
        None \<Rightarrow> None
      | Some v \<Rightarrow>
          if k \<in> set ks \<and> 0 <s Expiration v \<and> Expiration v <s now then None else Some v)"
proof (induction ks arbitrary: c)
  case Nil
  show ?case by (simp split: option.splits)
next
  case (Cons k' ks)
  show ?case
    by (auto simp: Cons.IH delete_def split: option.splits)
qed


lemma DeleteExpired_unlocked:
  "\<not> mu c \<Longrightarrow>
   DeleteExpired c now ks = Return (c\<lparr>items := items (DeleteExpired_range now ks c)\<rparr>)"
proof -
  assume free: "\<not> mu c"
  have "DeleteExpired_range now ks (c\<lparr>mu := True\<rparr>) =
          c\<lparr>mu := True, items := items (DeleteExpired_range now ks (c\<lparr>mu := True\<rparr>))\<rparr>"
    by (rule DeleteExpired_range_frame)
  moreover have "items (DeleteExpired_range now ks (c\<lparr>mu := True\<rparr>)) =
                 items (DeleteExpired_range now ks c)"
    by (rule ext) (simp add: DeleteExpired_range_items)
  ultimately have "DeleteExpired_range now ks (c\<lparr>mu := True\<rparr>) =
          c\<lparr>mu := True, items := items (DeleteExpired_range now ks c)\<rparr>"
    by simp
  with free show ?thesis
    by (simp add: DeleteExpired_def Lock_def Unlock_def)
qed

text \<open>
  C6. Called with the mutex free, at the clock reading \<open>now\<close> and with any order
  \<open>ks\<close> of the range over the stored keys, \<^verbatim>\<open>DeleteExpired\<close> returns a cache that
  differs from the one it found only in \<^verbatim>\<open>items\<close>: an entry is gone exactly when its
  \<^verbatim>\<open>Expiration\<close> is positive and strictly less than \<open>now\<close>, and every other entry is
  as it was. A second \<^verbatim>\<open>DeleteExpired\<close> at the same \<open>now\<close>, with any order of the
  range over the keys that are left, returns the cache unchanged.
\<close>

theorem DeleteExpired_removes_expired_once:
  assumes "\<not> mu c" and "range_order ks (items c)"
  shows "\<exists>c'. DeleteExpired c now ks = Return c' \<and>
           c' = c\<lparr>items := items c'\<rparr> \<and>
           (\<forall>k. items c' k =
              (case items c k of
                 None \<Rightarrow> None
               | Some v \<Rightarrow> if 0 <s Expiration v \<and> Expiration v <s now then None else Some v)) \<and>
           (\<forall>ks'. range_order ks' (items c') \<longrightarrow> DeleteExpired c' now ks' = Return c')"
proof -
  let ?i = "items (DeleteExpired_range now ks c)"
  let ?c' = "c\<lparr>items := ?i\<rparr>"
  have run: "DeleteExpired c now ks = Return ?c'"
    using assms(1) by (rule DeleteExpired_unlocked)
  have swept: "?i k =
      (case items c k of
         None \<Rightarrow> None
       | Some v \<Rightarrow> if 0 <s Expiration v \<and> Expiration v <s now then None else Some v)" for k
    using assms(2)
    by (auto simp: DeleteExpired_range_items range_order_def split: option.splits)
  have kept: "\<not> (0 <s Expiration v \<and> Expiration v <s now)" if "?i k = Some v" for k v
    using that by (auto simp: swept split: option.splits if_splits)
  have again: "DeleteExpired ?c' now ks' = Return ?c'" for ks'
  proof -
    have "items (DeleteExpired_range now ks' ?c') k = ?i k" for k
      using kept [of k]
      by (cases "?i k") (auto simp: DeleteExpired_range_items [of now ks' ?c'])
    then have "items (DeleteExpired_range now ks' ?c') = ?i"
      by (rule ext)
    moreover have "\<not> mu ?c'"
      using assms(1) by simp
    ultimately show ?thesis
      by (simp add: DeleteExpired_unlocked)
  qed
  have "DeleteExpired c now ks = Return ?c' \<and>
        ?c' = c\<lparr>items := items ?c'\<rparr> \<and>
        (\<forall>k. items ?c' k =
           (case items c k of
              None \<Rightarrow> None
            | Some v \<Rightarrow> if 0 <s Expiration v \<and> Expiration v <s now then None else Some v)) \<and>
        (\<forall>ks'. range_order ks' (items ?c') \<longrightarrow> DeleteExpired ?c' now ks' = Return ?c')"
    using run swept again by simp
  then show ?thesis
    by (rule exI)
qed

theorem DeleteExpired_removes_expired_once_witness:
  "DeleteExpired
     \<lparr>defaultExpiration = 0,
      items = [''a'' \<mapsto> \<lparr>Object = Some (1::nat), Expiration = 50\<rparr>,
               ''b'' \<mapsto> \<lparr>Object = Some 2, Expiration = 0\<rparr>,
               ''c'' \<mapsto> \<lparr>Object = Some 3, Expiration = 100\<rparr>],
      mu = False, gcInterval = 50000000, stopGc = True\<rparr> 100 [''b'', ''c'', ''a''] =
   Return
     \<lparr>defaultExpiration = 0,
      items = [''b'' \<mapsto> \<lparr>Object = Some 2, Expiration = 0\<rparr>,
               ''c'' \<mapsto> \<lparr>Object = Some 3, Expiration = 100\<rparr>],
      mu = False, gcInterval = 50000000, stopGc = True\<rparr> \<and>
   DeleteExpired
     \<lparr>defaultExpiration = 0,
      items = [''b'' \<mapsto> \<lparr>Object = Some (2::nat), Expiration = 0\<rparr>,
               ''c'' \<mapsto> \<lparr>Object = Some 3, Expiration = 100\<rparr>],
      mu = False, gcInterval = 50000000, stopGc = True\<rparr> 100 [''c'', ''b''] =
   Return
     \<lparr>defaultExpiration = 0,
      items = [''b'' \<mapsto> \<lparr>Object = Some 2, Expiration = 0\<rparr>,
               ''c'' \<mapsto> \<lparr>Object = Some 3, Expiration = 100\<rparr>],
      mu = False, gcInterval = 50000000, stopGc = True\<rparr>"
proof -
  let ?m = "[''a'' \<mapsto> \<lparr>Object = Some (1::nat), Expiration = 50\<rparr>,
             ''b'' \<mapsto> \<lparr>Object = Some 2, Expiration = 0\<rparr>,
             ''c'' \<mapsto> \<lparr>Object = Some 3, Expiration = 100\<rparr>]"
  let ?m' = "[''b'' \<mapsto> \<lparr>Object = Some (2::nat), Expiration = 0\<rparr>,
              ''c'' \<mapsto> \<lparr>Object = Some 3, Expiration = 100\<rparr>]"
  let ?c = "\<lparr>defaultExpiration = 0, items = ?m, mu = False,
              gcInterval = 50000000, stopGc = True\<rparr>"
  let ?d = "\<lparr>defaultExpiration = 0, items = ?m', mu = False,
              gcInterval = 50000000, stopGc = True\<rparr>"
  have free: "\<not> mu ?c"
    by simp
  have order: "range_order [''b'', ''c'', ''a''] (items ?c)"
    by (auto simp: range_order_def)
  have order': "range_order [''c'', ''b''] ?m'"
    by (auto simp: range_order_def)
  from DeleteExpired_removes_expired_once [OF free order, of 100]
  obtain c' where run: "DeleteExpired ?c 100 [''b'', ''c'', ''a''] = Return c'"
    and frame: "c' = ?c\<lparr>items := items c'\<rparr>"
    and swept: "\<And>k. items c' k =
        (case items ?c k of
           None \<Rightarrow> None
         | Some v \<Rightarrow> if 0 <s Expiration v \<and> Expiration v <s 100 then None else Some v)"
    and again: "\<And>ks'. range_order ks' (items c') \<Longrightarrow> DeleteExpired c' 100 ks' = Return c'"
    by blast
  have "items c' = ?m'"
    by (rule ext) (simp add: swept word_sless_alt)
  with frame have c': "c' = ?d"
    by simp
  from run again [of "[''c'', ''b'']"] order' show ?thesis
    unfolding c' by simp
qed

subsection \<open>Merging a snapshot: \<^verbatim>\<open>Load\<close>\<close>

lemma Load_range_frame:
  "Load_range clock m ks c = c\<lparr>items := items (Load_range clock m ks c)\<rparr>"
proof (induction ks arbitrary: c)
  case Nil
  show ?case by simp
next
  case (Cons k ks)
  show ?case
    by (subst (1 2) Load_range.simps, subst (1 2) Cons.IH)
      (simp split: option.splits)
qed

lemma Load_range_items:
  "distinct ks \<Longrightarrow>
   items (Load_range clock m ks c) k =
     (if k \<in> set ks
      then (case m k of
              None \<Rightarrow> items c k
            | Some v \<Rightarrow>
                (case items c k of
                   None \<Rightarrow> Some v
                 | Some item \<Rightarrow> if Expired (clock k) item then Some v else Some item))
      else items c k)"
proof (induction ks arbitrary: c)
  case Nil
  show ?case by simp
next
  case (Cons k' ks)
  then have "distinct ks" and "k' \<notin> set ks"
    by simp_all
  then show ?case
    by (auto simp: Cons.IH split: option.splits)
qed

lemma Load_unlocked:
  assumes "\<not> mu c" and "dec r = Inr m"
  shows "Load c dec r clock ks = Return (c\<lparr>items := items (Load_range clock m ks c)\<rparr>, None)"
proof -
  have "Load_range clock m ks (c\<lparr>mu := True\<rparr>) =
          c\<lparr>mu := True, items := items (Load_range clock m ks (c\<lparr>mu := True\<rparr>))\<rparr>"
    by (rule Load_range_frame)
  moreover have "items (Load_range clock m ks (c\<lparr>mu := True\<rparr>)) =
                 items (Load_range clock m ks c)"
  proof (induction ks arbitrary: c)
    case Nil
    show ?case by simp
  next
    case (Cons k ks)
    have step: "(case m k of
            None \<Rightarrow> c\<lparr>mu := True\<rparr>
          | Some v \<Rightarrow>
              (case items (c\<lparr>mu := True\<rparr>) k of
                 None \<Rightarrow> c\<lparr>mu := True\<rparr>\<lparr>items := (items (c\<lparr>mu := True\<rparr>))(k \<mapsto> v)\<rparr>
               | Some item \<Rightarrow>
                   if Expired (clock k) item
                   then c\<lparr>mu := True\<rparr>\<lparr>items := (items (c\<lparr>mu := True\<rparr>))(k \<mapsto> v)\<rparr>
                   else c\<lparr>mu := True\<rparr>)) =
          (case m k of
            None \<Rightarrow> c
          | Some v \<Rightarrow>
              (case items c k of
                 None \<Rightarrow> c\<lparr>items := (items c)(k \<mapsto> v)\<rparr>
               | Some item \<Rightarrow>
                   if Expired (clock k) item then c\<lparr>items := (items c)(k \<mapsto> v)\<rparr> else c))
          \<lparr>mu := True\<rparr>"
      by (simp split: option.splits)
    show ?case
      by (subst (1 2) Load_range.simps) (simp only: step Cons.IH)
  qed
  ultimately have "Load_range clock m ks (c\<lparr>mu := True\<rparr>) =
          c\<lparr>mu := True, items := items (Load_range clock m ks c)\<rparr>"
    by simp
  with assms show ?thesis
    by (simp add: Load_def Lock_def Unlock_def)
qed


text \<open>
  C7. Called with the mutex free on a stream that decodes to the map \<open>m\<close>, with any
  order \<open>ks\<close> of the range over \<open>m\<close>, \<^verbatim>\<open>Load\<close> returns no error and a cache
  that differs from the one it found only in \<^verbatim>\<open>items\<close>. A decoded key is installed
  only if it is absent from the cache or the entry under it is expired (at the clock
  reading \<open>clock k\<close> of its check): wherever the map changes, the new entry is the
  decoded one and the old one was absent or expired. An entry that is live at its check is
  kept, so \<^verbatim>\<open>Get\<close> on that key returns after \<^verbatim>\<open>Load\<close> what \<^verbatim>\<open>get\<close> gives on
  the cache before \<^verbatim>\<open>Load\<close>.
\<close>

theorem Load_keeps_live_entries:
  assumes "\<not> mu c" and "dec r = Inr m" and "range_order ks m"
  shows "\<exists>c'. Load c dec r clock ks = Return (c', None) \<and>
           c' = c\<lparr>items := items c'\<rparr> \<and>
           (\<forall>k. items c' k =
              (case m k of
                 None \<Rightarrow> items c k
               | Some v \<Rightarrow>
                   (case items c k of
                      None \<Rightarrow> Some v
                    | Some item \<Rightarrow> if Expired (clock k) item then Some v else Some item))) \<and>
           (\<forall>k. items c' k \<noteq> items c k \<longrightarrow>
              items c' k = m k \<and>
              (items c k = None \<or> (\<exists>item. items c k = Some item \<and> Expired (clock k) item))) \<and>
           (\<forall>k. snd (get c (clock k) k) \<longrightarrow>
              items c' k = items c k \<and> (\<forall>t. Get c' t k = Return (c', get c t k)))"
proof -
  let ?i = "items (Load_range clock m ks c)"
  let ?c' = "c\<lparr>items := ?i\<rparr>"
  have run: "Load c dec r clock ks = Return (?c', None)"
    using assms(1,2) by (rule Load_unlocked)
  have merged: "?i k =
      (case m k of
         None \<Rightarrow> items c k
       | Some v \<Rightarrow>
           (case items c k of
              None \<Rightarrow> Some v
            | Some item \<Rightarrow> if Expired (clock k) item then Some v else Some item))" for k
    using assms(3)
    by (auto simp: Load_range_items range_order_def split: option.splits)
  have only_dead: "?i k = m k \<and>
      (items c k = None \<or> (\<exists>item. items c k = Some item \<and> Expired (clock k) item))"
    if "?i k \<noteq> items c k" for k
    using that by (auto simp: merged split: option.splits if_splits)
  have live: "?i k = items c k" if "snd (get c (clock k) k)" for k
    using that by (auto simp: merged get_def split: option.splits if_splits)
  have read: "Get ?c' t k = Return (?c', get c t k)" if "snd (get c (clock k) k)" for k t
  proof -
    have "get ?c' t k = get c t k"
      using live [OF that] by (simp add: get_def)
    moreover have "\<not> mu ?c'"
      using assms(1) by simp
    ultimately show ?thesis
      by (simp add: Get_unlocked)
  qed
  show ?thesis
  proof (rule exI)
    show "Load c dec r clock ks = Return (?c', None) \<and>
          ?c' = c\<lparr>items := items ?c'\<rparr> \<and>
          (\<forall>k. items ?c' k =
             (case m k of
                None \<Rightarrow> items c k
              | Some v \<Rightarrow>
                  (case items c k of
                     None \<Rightarrow> Some v
                   | Some item \<Rightarrow> if Expired (clock k) item then Some v else Some item))) \<and>
          (\<forall>k. items ?c' k \<noteq> items c k \<longrightarrow>
             items ?c' k = m k \<and>
             (items c k = None \<or> (\<exists>item. items c k = Some item \<and> Expired (clock k) item))) \<and>
          (\<forall>k. snd (get c (clock k) k) \<longrightarrow>
             items ?c' k = items c k \<and> (\<forall>t. Get ?c' t k = Return (?c', get c t k)))"
    proof (intro conjI allI impI)
      show "Load c dec r clock ks = Return (?c', None)"
        by (rule run)
      show "?c' = c\<lparr>items := items ?c'\<rparr>"
        by simp
      show "items ?c' k =
          (case m k of
             None \<Rightarrow> items c k
           | Some v \<Rightarrow>
               (case items c k of
                  None \<Rightarrow> Some v
                | Some item \<Rightarrow> if Expired (clock k) item then Some v else Some item))" for k
        using merged [of k] by simp
      show "items ?c' k = m k" if "items ?c' k \<noteq> items c k" for k
        using only_dead [of k] that by simp
      show "items c k = None \<or> (\<exists>item. items c k = Some item \<and> Expired (clock k) item)"
        if "items ?c' k \<noteq> items c k" for k
        using only_dead [of k] that by simp
      show "items ?c' k = items c k" if "snd (get c (clock k) k)" for k
        using live [OF that] by simp
      show "Get ?c' t k = Return (?c', get c t k)" if "snd (get c (clock k) k)" for k t
        using that by (rule read)
    qed
  qed
qed

theorem Load_keeps_live_entries_witness:
  "Load
     \<lparr>defaultExpiration = 0,
      items = [''a'' \<mapsto> \<lparr>Object = Some (1::nat), Expiration = 0\<rparr>,
               ''b'' \<mapsto> \<lparr>Object = Some 2, Expiration = 50\<rparr>],
      mu = False, gcInterval = 50000000, stopGc = True\<rparr>
     (\<lambda>r. if r = [] then Inl (CodecError ''EOF'')
          else Inr [''a'' \<mapsto> \<lparr>Object = Some 7, Expiration = 0\<rparr>,
                    ''b'' \<mapsto> \<lparr>Object = Some 8, Expiration = 0\<rparr>,
                    ''c'' \<mapsto> \<lparr>Object = Some 9, Expiration = 0\<rparr>])
     [0::nat] (\<lambda>k. 100) [''c'', ''a'', ''b''] =
   Return
     (\<lparr>defaultExpiration = 0,
       items = [''a'' \<mapsto> \<lparr>Object = Some 1, Expiration = 0\<rparr>,
                ''b'' \<mapsto> \<lparr>Object = Some 8, Expiration = 0\<rparr>,
                ''c'' \<mapsto> \<lparr>Object = Some 9, Expiration = 0\<rparr>],
       mu = False, gcInterval = 50000000, stopGc = True\<rparr>, None)"
proof -
  let ?m = "[''a'' \<mapsto> \<lparr>Object = Some (7::nat), Expiration = 0\<rparr>,
             ''b'' \<mapsto> \<lparr>Object = Some 8, Expiration = 0\<rparr>,
             ''c'' \<mapsto> \<lparr>Object = Some 9, Expiration = 0\<rparr>]"
  let ?dec = "\<lambda>r::nat list. if r = [] then Inl (CodecError ''EOF'') else Inr ?m"
  let ?c = "\<lparr>defaultExpiration = 0,
              items = [''a'' \<mapsto> \<lparr>Object = Some (1::nat), Expiration = 0\<rparr>,
                       ''b'' \<mapsto> \<lparr>Object = Some 2, Expiration = 50\<rparr>],
              mu = False, gcInterval = 50000000, stopGc = True\<rparr>"
  let ?n = "[''a'' \<mapsto> \<lparr>Object = Some (1::nat), Expiration = 0\<rparr>,
             ''b'' \<mapsto> \<lparr>Object = Some 8, Expiration = 0\<rparr>,
             ''c'' \<mapsto> \<lparr>Object = Some 9, Expiration = 0\<rparr>]"
  have free: "\<not> mu ?c"
    by simp
  have decoded: "?dec [0] = Inr ?m"
    by simp
  have order: "range_order [''c'', ''a'', ''b''] ?m"
    by (auto simp: range_order_def)
  from Load_keeps_live_entries
    [where c = ?c and dec = ?dec and r = "[0]" and m = ?m and ks = "[''c'', ''a'', ''b'']"
       and clock = "\<lambda>k. 100", OF free decoded order]
  obtain c' where all: "Load ?c ?dec [0] (\<lambda>k. 100) [''c'', ''a'', ''b''] = Return (c', None) \<and>
      c' = ?c\<lparr>items := items c'\<rparr> \<and>
      (\<forall>k. items c' k =
        (case ?m k of
           None \<Rightarrow> items ?c k
         | Some v \<Rightarrow>
             (case items ?c k of
                None \<Rightarrow> Some v
              | Some item \<Rightarrow> if Expired 100 item then Some v else Some item)))"
    by (elim exE conjE) (rule that, (intro conjI; assumption))
  note run = all [THEN conjunct1]
    and frame = all [THEN conjunct2, THEN conjunct1]
    and merged = all [THEN conjunct2, THEN conjunct2, THEN spec]
  have "items c' = ?n"
    by (rule ext) (simp add: merged Expired_def word_sless_alt)
  with frame have "c' = ?c\<lparr>items := ?n\<rparr>"
    by simp
  with run show ?thesis
    by simp
qed

subsection \<open>Saving, flushing and loading\<close>






end
